theory Spec2Isabelle
  imports Main
begin

section \<open>Check Character Calculator: the functions of src/js/functions.js\<close>

text \<open>
  The specification calls \<open>getPhonetic\<close> the renderer (\<open>renderPhonetic\<close>), \<open>getCheck\<close>
  the check character algorithm (\<open>computeCheck\<close>) and \<open>handleSpecialLocation\<close> the
  classifier (\<open>classify\<close>), whose two outputs are the texts the function writes to the
  page.

  A JavaScript string is modelled as a \<^typ>\<open>string\<close>, one \<^typ>\<open>char\<close> per code unit, so
  the model covers the strings whose code units are below 256 (Latin-1); the page's input
  filter only lets \<open>0-9 A-Z a-z + -\<close> through. The value \<open>undefined\<close> is \<open>None\<close>, and
  \<open>NaN\<close> is \<open>None\<close> where a number is expected.
\<close>

subsection \<open>The two tables\<close>

definition letters :: "string list" where
  "letters = [''ALPHA'', ''BRAVO'', ''CHARLIE'', ''DELTA'', ''ECHO'', ''FOXTROT'', ''GOLF'',
     ''HOTEL'', ''INDIA'', ''JULIET'', ''KILO'', ''LIMA'', ''MIKE'', ''NOVEMBER'', ''OSCAR'',
     ''PAPA'', ''QUEBEC'', ''ROMEO'', ''SIERRA'', ''TANGO'', ''UNIFORM'', ''VICTOR'',
     ''WHISKEY'', ''X-RAY'', ''YANKEE'', ''ZULU'']"

definition numbers :: "string list" where
  "numbers = [''ZERO'', ''ONE'', ''TWO'', ''THREE'', ''FOUR'', ''FIVE'', ''SIX'', ''SEVEN'',
     ''EIGHT'', ''NINE'']"

subsection \<open>The built-ins of the language that the code calls\<close>

text \<open>\<open>xs[k]\<close> for an integer \<open>k\<close>: \<open>undefined\<close> outside the array.\<close>

definition index :: "'a list \<Rightarrow> int \<Rightarrow> 'a option" where
  "index xs k = (if 0 \<le> k \<and> k < int (length xs) then Some (xs ! nat k) else None)"

text \<open>
  \<open>s.substr(start, len)\<close>: a negative start counts from the end, the start is clamped to
  the string and the length to what is left of it.
\<close>

definition substr :: "string \<Rightarrow> int \<Rightarrow> int \<Rightarrow> string" where
  "substr s start len =
     (let size = int (length s);
          b = (if start < 0 then max (size + start) 0 else min start size);
          n = min (max len 0) (size - b)
      in take (nat n) (drop (nat b) s))"

text \<open>\<open>s.substr(start)\<close>, with no length: up to the end of the string.\<close>

definition substr_from :: "string \<Rightarrow> int \<Rightarrow> string" where
  "substr_from s start = substr s start (int (length s))"

text \<open>\<open>s.charCodeAt(k)\<close>: \<open>NaN\<close> outside the string.\<close>

definition charCodeAt :: "string \<Rightarrow> nat \<Rightarrow> nat option" where
  "charCodeAt s k = (if k < length s then Some (of_char (s ! k)) else None)"

text \<open>\<open>String.fromCharCode(n)\<close> for a number \<open>n\<close> (reduced to the code units of the model).\<close>

definition fromCharCode :: "nat \<Rightarrow> string" where
  "fromCharCode n = [char_of n]"

definition isDigit :: "char \<Rightarrow> bool" where
  "isDigit c = (48 \<le> (of_char c :: nat) \<and> (of_char c :: nat) \<le> 57)"

text \<open>White space and line terminators below 256: TAB, LF, VT, FF, CR, SP, NBSP.\<close>

definition isWhiteSpace :: "char \<Rightarrow> bool" where
  "isWhiteSpace c = ((of_char c :: nat) \<in> {9, 10, 11, 12, 13, 32, 160})"

text \<open>
  \<open>isNaN(s)\<close> for a string of at most one character, which is all the code passes:
  \<open>Number('''')\<close> and \<open>Number\<close> of a white-space character are 0, \<open>Number\<close> of a digit is
  its value, and every other character gives \<open>NaN\<close>.
\<close>

definition isNaN :: "string \<Rightarrow> bool" where
  "isNaN s = (case s of [] \<Rightarrow> False | c # _ \<Rightarrow> \<not> isDigit c \<and> \<not> isWhiteSpace c)"

text \<open>
  \<open>xs[s]\<close> for a string \<open>s\<close> of at most one character: the element when \<open>s\<close> is a digit,
  \<open>undefined\<close> otherwise (the array has no property named \<open>''''\<close> or \<open>'' ''\<close>).
\<close>

definition element :: "'a list \<Rightarrow> string \<Rightarrow> 'a option" where
  "element xs s = (case s of [c] \<Rightarrow> (if isDigit c then index xs (int (of_char c) - 48) else None)
                   | _ \<Rightarrow> None)"

text \<open>
  \<open>toUpperCase\<close> on the code units below 256: \<open>a-z\<close> and the accented small letters move
  down by 32, the sharp s (223) becomes \<open>SS\<close>. The capitals of the micro sign (181) and of
  y with diaeresis (255) lie above 255; those two stay as they are here, which
  \<open>convertToWord\<close> cannot tell apart: either way the result is no digit, no white space and
  no letter of \<open>A-Z\<close>.
\<close>

definition toUpperCase_char :: "char \<Rightarrow> string" where
  "toUpperCase_char c =
     (let n = (of_char c :: nat)
      in if n = 223 then ''SS''
         else if (97 \<le> n \<and> n \<le> 122) \<or> (224 \<le> n \<and> n \<le> 254 \<and> n \<noteq> 247)
              then [char_of (n - 32)]
         else [c])"

definition toUpperCase :: "string \<Rightarrow> string" where
  "toUpperCase s = concat (map toUpperCase_char s)"

text \<open>\<open>s.trim()\<close>: white space and line terminators removed at both ends.\<close>

definition trim :: "string \<Rightarrow> string" where
  "trim s = rev (dropWhile isWhiteSpace (rev (dropWhile isWhiteSpace s)))"

text \<open>\<open>$.trim(s)\<close> of jQuery removes white space (its \<open>\s\<close>, U+FEFF and U+00A0) at
  both ends: the same set of code units below 256.\<close>

definition jQuery_trim :: "string \<Rightarrow> string" where
  "jQuery_trim s = trim s"

text \<open>String concatenation with a value that may be \<open>undefined\<close>.\<close>

definition toString :: "string option \<Rightarrow> string" where
  "toString v = (case v of None \<Rightarrow> ''undefined'' | Some s \<Rightarrow> s)"

subsection \<open>convertToWord\<close>

definition convertToWord :: "string \<Rightarrow> string option" where
  "convertToWord character0 =
     (let character = substr character0 0 1
      in if \<not> isNaN character then element numbers character
         else (case charCodeAt (toUpperCase character) 0 of
                 None \<Rightarrow> None
               | Some code \<Rightarrow> index letters (int code - 65)))"

subsection \<open>getPhonetic\<close>

function getPhonetic_loop :: "string \<Rightarrow> nat \<Rightarrow> string \<Rightarrow> string" where
  "getPhonetic_loop location i result =
     (if i < length location then
        let result1 =
              (if substr location (int i) (int i + 1) \<noteq> ''+''
                  \<and> substr location (int i) (int i + 1) \<noteq> ''+''
               then result @ toString (convertToWord (toUpperCase (substr location (int i) (int i + 1))))
               else result);
            result2 = (if int i \<noteq> int (length location) - 1 then result1 @ '' '' else result1)
        in getPhonetic_loop location (i + 1) result2
      else result)"
  by pat_completeness auto
termination
  by (relation "measure (\<lambda>(location, i, result). length location - i)") auto

declare getPhonetic_loop.simps [simp del]

definition getPhonetic :: "string \<Rightarrow> string" where
  "getPhonetic location = getPhonetic_loop location 0 ''''"

subsection \<open>getCheck\<close>

text \<open>
  The accumulator \<open>i\<close> is a number or \<open>NaN\<close>; \<open>NaN\<close> would come from \<open>charCodeAt\<close> outside
  the string and stays \<open>NaN\<close> through \<open>+\<close>, \<open>*\<close> and \<open>%\<close>; \<open>String.fromCharCode(NaN)\<close> is
  the character of code 0.
\<close>

function getCheck_loop :: "string \<Rightarrow> nat \<Rightarrow> nat option \<Rightarrow> nat option" where
  "getCheck_loop location j i =
     (if j < 6 then
        getCheck_loop location (j + 1)
          (case (i, charCodeAt location (j mod 4)) of
             (Some a, Some c) \<Rightarrow> Some (a + c * (j mod 3 * 2 + 3))
           | _ \<Rightarrow> None)
      else i)"
  by pat_completeness auto
termination
  by (relation "measure (\<lambda>(location, j, i). 6 - j)") auto

declare getCheck_loop.simps [simp del]

definition getCheck :: "string \<Rightarrow> string option" where
  "getCheck location =
     (if length location \<noteq> 4 then Some ''NONE''
      else (case getCheck_loop location 2 (Some 0) of
              Some i \<Rightarrow> convertToWord (fromCharCode (i mod 26 + 65))
            | None \<Rightarrow> convertToWord (fromCharCode 0)))"

subsection \<open>handleSpecialLocation\<close>

text \<open>
  The page: the text of the two elements the function writes. \<open>elem.text(v)\<close> of jQuery
  sets the text, and leaves it as it is when \<open>v\<close> is \<open>undefined\<close>.
\<close>

record page =
  phoneticDiv :: string
  checkDiv :: string

definition checkDiv_text :: "string option \<Rightarrow> page \<Rightarrow> page" where
  "checkDiv_text v p = (case v of None \<Rightarrow> p | Some s \<Rightarrow> p\<lparr>checkDiv := s\<rparr>)"

definition phoneticDiv_text :: "string \<Rightarrow> page \<Rightarrow> page" where
  "phoneticDiv_text s p = p\<lparr>phoneticDiv := s\<rparr>"

text \<open>
  The function returns \<open>true\<close> or nothing (\<open>undefined\<close>, which the caller tests as false):
  the model returns the truth value and the page.
\<close>

function handleSpecialLocation :: "string \<Rightarrow> page \<Rightarrow> bool \<times> page" where
  "handleSpecialLocation location p =
     (if substr_from location (- 1) = ''+'' \<or> substr_from location (- 1) = ''-'' then
        let prefix = (if substr_from location (- 1) = ''+'' then ''AFTER ''
                      else if substr_from location (- 1) = ''-'' then ''BEFORE ''
                      else ''undefined'');
            (special, p1) = handleSpecialLocation (substr location 0 (int (length location) - 1)) p;
            p2 = (if special
                  then phoneticDiv_text (prefix @ phoneticDiv p1) p1
                  else phoneticDiv_text
                         (prefix @ getPhonetic (substr location 0 (int (length location) - 1))) p1);
            p3 = checkDiv_text (getCheck location) p2
        in (True, p3)
      else if location = ''SOB'' then
        (True, checkDiv_text (Some ''SIERRA'') (phoneticDiv_text ''SOB'' p))
      else if location = ''DPA'' then
        (True, checkDiv_text (Some ''VICTOR'') (phoneticDiv_text ''DPA'' p))
      else if location = ''RETS'' then
        (True, checkDiv_text (getCheck location) (phoneticDiv_text ''RETURNS'' p))
      else if substr location 0 2 = ''CA'' then
        (True, checkDiv_text (getCheck location)
           (phoneticDiv_text (jQuery_trim (''CASH OFFICE '' @ getPhonetic (substr location 2 4))) p))
      else if substr location 0 2 = ''CP'' then
        (True, checkDiv_text (getCheck location)
           (phoneticDiv_text
              (jQuery_trim (''COLLECTION POINT '' @ getPhonetic (substr location 2 4))) p))
      else if substr location 0 1 = ''J'' then
        (True, checkDiv_text (getCheck location)
           (phoneticDiv_text (jQuery_trim (''JEWELLERY '' @ getPhonetic (substr location 1 4))) p))
      else if substr location 0 1 = ''S'' then
        (True, checkDiv_text (getCheck location)
           (phoneticDiv_text (jQuery_trim (''SECURITY '' @ getPhonetic (substr location 1 4))) p))
      else if substr location 0 1 = ''L'' then
        (True, checkDiv_text (getCheck location)
           (phoneticDiv_text
              (jQuery_trim (getPhonetic (substr location 1 2) @ '' LINBIN ''
                 @ getPhonetic (substr location 3 4))) p))
      else if substr location 0 1 = ''Z'' then
        (True, checkDiv_text (getCheck location)
           (phoneticDiv_text
              (jQuery_trim (getPhonetic (substr location 1 2) @ '' BULK ''
                 @ trim (getPhonetic (substr location 3 4)))) p))
      else (False, p))"
  by pat_completeness auto
termination
proof (relation "measure (\<lambda>(location, p). length location)")
  show "wf (measure (\<lambda>(location, p). length location))" by simp
next
  fix location :: string and p :: page
  assume "substr_from location (- 1) = ''+'' \<or> substr_from location (- 1) = ''-''"
  then have "substr_from location (- 1) \<noteq> []" by auto
  then have "location \<noteq> []"
    by (auto simp: substr_from_def substr_def)
  then have "length (substr location 0 (int (length location) - 1)) < length location"
    by (cases location) (auto simp: substr_def Let_def)
  then show "((substr location 0 (int (length location) - 1), p), (location, p))
               \<in> measure (\<lambda>(location, p). length location)"
    by simp
qed

declare handleSpecialLocation.simps [simp del]

subsection \<open>The description of the phonetic text, to compare getPhonetic with\<close>

text \<open>
  The characters the page lets through before the suffix: digits and capital letters.
\<close>

definition isUpperAlnum :: "char \<Rightarrow> bool" where
  "isUpperAlnum c = (isDigit c \<or> (65 \<le> (of_char c :: nat) \<and> (of_char c :: nat) \<le> 90))"

text \<open>
  The word of one character as the specification has it: a digit through the table of
  number names, a letter through the table of letters at its character code minus that of
  \<open>A\<close>.
\<close>

definition spec_word :: "char \<Rightarrow> string" where
  "spec_word c =
     (if isDigit c then numbers ! (of_char c - of_char CHR ''0'')
      else letters ! (of_char c - of_char CHR ''A''))"

text \<open>The words joined with one space between two neighbours.\<close>

fun spec_join :: "string list \<Rightarrow> string" where
  "spec_join [] = []"
| "spec_join [w] = w"
| "spec_join (w # ws) = w @ '' '' @ spec_join ws"

definition spec_renderPhonetic :: "string \<Rightarrow> string" where
  "spec_renderPhonetic s = spec_join (map spec_word s)"

subsection \<open>getPhonetic with the second comparison deleted\<close>

text \<open>
  The loop of \<open>getPhonetic\<close> with the condition \<open>location.substr(i, i + 1) !== '+'\<close> tested
  once instead of twice, and nothing else changed.
\<close>

function getPhonetic_once_loop :: "string \<Rightarrow> nat \<Rightarrow> string \<Rightarrow> string" where
  "getPhonetic_once_loop location i result =
     (if i < length location then
        let result1 =
              (if substr location (int i) (int i + 1) \<noteq> ''+''
               then result @ toString (convertToWord (toUpperCase (substr location (int i) (int i + 1))))
               else result);
            result2 = (if int i \<noteq> int (length location) - 1 then result1 @ '' '' else result1)
        in getPhonetic_once_loop location (i + 1) result2
      else result)"
  by pat_completeness auto
termination
  by (relation "measure (\<lambda>(location, i, result). length location - i)") auto

declare getPhonetic_once_loop.simps [simp del]

definition getPhonetic_once :: "string \<Rightarrow> string" where
  "getPhonetic_once location = getPhonetic_once_loop location 0 ''''"

subsection \<open>handleSpecialLocation with a bound on the depth of its recursion\<close>

text \<open>
  The same function with a counter of the recursive calls it may still nest: \<open>None\<close> when
  a call would be needed and the counter is 0. Only the relative suffix rule calls the
  function again; below that rule the result is that of \<open>handleSpecialLocation\<close>, which
  makes no call there.
\<close>

fun handleSpecialLocation_bounded :: "nat \<Rightarrow> string \<Rightarrow> page \<Rightarrow> (bool \<times> page) option" where
  "handleSpecialLocation_bounded 0 location p =
     (if substr_from location (- 1) = ''+'' \<or> substr_from location (- 1) = ''-'' then None
      else Some (handleSpecialLocation location p))"
| "handleSpecialLocation_bounded (Suc n) location p =
     (if substr_from location (- 1) = ''+'' \<or> substr_from location (- 1) = ''-'' then
        (case handleSpecialLocation_bounded n (substr location 0 (int (length location) - 1)) p of
           None \<Rightarrow> None
         | Some (special, p1) \<Rightarrow>
             let prefix = (if substr_from location (- 1) = ''+'' then ''AFTER ''
                           else if substr_from location (- 1) = ''-'' then ''BEFORE ''
                           else ''undefined'');
                 p2 = (if special
                       then phoneticDiv_text (prefix @ phoneticDiv p1) p1
                       else phoneticDiv_text
                              (prefix @ getPhonetic (substr location 0 (int (length location) - 1)))
                              p1);
                 p3 = checkDiv_text (getCheck location) p2
             in Some (True, p3))
      else Some (handleSpecialLocation location p))"

section \<open>The check character\<close>

lemma getCheck_loop_unfold:
  "length location = 4 \<Longrightarrow>
   getCheck_loop location 2 (Some 0) =
     Some (of_char (location ! 2) * 7 + of_char (location ! 3) * 3
           + of_char (location ! 0) * 5 + of_char (location ! 1) * 7)"
  by (simp add: getCheck_loop.simps charCodeAt_def)

lemma convertToWord_capital:
  assumes "r < 26"
  shows "isNaN (substr (fromCharCode (r + 65)) 0 1)"
    and "convertToWord (fromCharCode (r + 65)) = Some (letters ! r)"
proof -
  have c: "(of_char (char_of (r + 65)) :: nat) = r + 65"
    using assms by simp
  show n: "isNaN (substr (fromCharCode (r + 65)) 0 1)"
    using assms by (simp add: fromCharCode_def substr_def isNaN_def isDigit_def isWhiteSpace_def c)
  have u: "toUpperCase (substr (fromCharCode (r + 65)) 0 1) = [char_of (r + 65)]"
    using assms by (simp add: fromCharCode_def substr_def toUpperCase_def toUpperCase_char_def c)
  have l: "length letters = 26" by (simp add: letters_def)
  show "convertToWord (fromCharCode (r + 65)) = Some (letters ! r)"
    using n assms by (simp add: convertToWord_def u charCodeAt_def c index_def l)
qed

lemma getCheck_four:
  assumes "length location = 4"
  shows "getCheck location =
     Some (letters ! ((of_char (location ! 2) * 7 + of_char (location ! 3) * 3
           + of_char (location ! 0) * 5 + of_char (location ! 1) * 7) mod 26))"
  using assms by (simp add: getCheck_def getCheck_loop_unfold convertToWord_capital)

lemma letters_words:
  assumes "r < 26"
  shows "letters ! r \<in> set letters"
    and "letters ! r \<noteq> ''NONE''"
    and "letters ! r \<noteq> []"
    and "CHR '' '' \<notin> set (letters ! r)"
proof -
  have l: "length letters = 26" by (simp add: letters_def)
  show "letters ! r \<in> set letters" using assms l by simp
  have all: "\<forall>w \<in> set letters. w \<noteq> ''NONE'' \<and> w \<noteq> [] \<and> CHR '' '' \<notin> set w"
    by (simp add: letters_def)
  from all \<open>letters ! r \<in> set letters\<close>
  show "letters ! r \<noteq> ''NONE''" "letters ! r \<noteq> []" "CHR '' '' \<notin> set (letters ! r)"
    by blast+
qed

text \<open>
  C1. For a code of four characters, \<open>getCheck\<close> is the word of the letter table at
  \<open>acc mod 26\<close>, where \<open>acc\<close> is the sum over \<open>j = 2, 3, 4, 5\<close> of the character code at
  position \<open>j mod 4\<close> times \<open>(j mod 3) * 2 + 3\<close>: the weights 7, 3, 5, 7 on the positions
  2, 3, 0, 1. The word comes from \<open>convertToWord\<close> on the letter of code \<open>acc mod 26 + 65\<close>,
  which \<open>isNaN\<close> sends to the letter table, not to the digit table.
\<close>

theorem getCheck_weighted_sum:
  assumes "length code = 4"
  shows "(let acc = (\<Sum>j\<leftarrow>[2, 3, 4, 5]. of_char (code ! (j mod 4)) * (j mod 3 * 2 + 3)) in
            getCheck code = Some (letters ! (acc mod 26))
          \<and> acc = 7 * of_char (code ! 2) + 3 * of_char (code ! 3)
                  + 5 * of_char (code ! 0) + 7 * of_char (code ! 1)
          \<and> getCheck code = convertToWord (fromCharCode (acc mod 26 + of_char CHR ''A''))
          \<and> isNaN (substr (fromCharCode (acc mod 26 + of_char CHR ''A'')) 0 1)
          \<and> convertToWord (fromCharCode (acc mod 26 + of_char CHR ''A''))
              = index letters (int (acc mod 26)))"
proof -
  define acc :: nat where
    "acc = (\<Sum>j\<leftarrow>[2, 3, 4, 5]. of_char (code ! (j mod 4)) * (j mod 3 * 2 + 3))"
  have w: "acc = 7 * of_char (code ! 2) + 3 * of_char (code ! 3)
                 + 5 * of_char (code ! 0) + 7 * of_char (code ! 1)"
    by (simp add: acc_def)
  have r: "acc mod 26 < 26" by simp
  have g: "getCheck code = Some (letters ! (acc mod 26))"
    using getCheck_four [OF assms] by (simp add: w mult.commute)
  have a: "(of_char CHR ''A'' :: nat) = 65" by simp
  have i: "index letters (int (acc mod 26)) = Some (letters ! (acc mod 26))"
    using r by (simp add: index_def letters_def)
  show ?thesis
    unfolding Let_def acc_def [symmetric] a
    using g w convertToWord_capital [OF r] i by simp
qed

theorem getCheck_weighted_sum_witness:
  "length ''S1A+'' = 4
   \<and> (\<Sum>j\<leftarrow>[2, 3, 4, 5]. of_char (''S1A+'' ! (j mod 4)) * (j mod 3 * 2 + 3)) = (1342 :: nat)
   \<and> getCheck ''S1A+'' = Some ''QUEBEC''"
  using getCheck_weighted_sum [of "''S1A+''"] by (simp add: letters_def)

text \<open>
  C3. On a string whose length is not 4, \<open>getCheck\<close> returns \<open>NONE\<close>; on a string of length
  4 it returns one word of the letter table, which is not \<open>NONE\<close>, is not empty and holds
  no space. It returns a string in both cases (never \<open>undefined\<close>), and the function is
  total.
\<close>

theorem getCheck_NONE_or_word:
  "(length x \<noteq> 4 \<longrightarrow> getCheck x = Some ''NONE'')
   \<and> (length x = 4 \<longrightarrow>
        (\<exists>w \<in> set letters. getCheck x = Some w \<and> w \<noteq> ''NONE'' \<and> w \<noteq> [] \<and> CHR '' '' \<notin> set w))"
proof (intro conjI impI)
  assume "length x \<noteq> 4"
  then show "getCheck x = Some ''NONE''" by (simp add: getCheck_def)
next
  assume l: "length x = 4"
  define r :: nat where
    "r = (of_char (x ! 2) * 7 + of_char (x ! 3) * 3 + of_char (x ! 0) * 5 + of_char (x ! 1) * 7)
           mod 26"
  have "r < 26" by (simp add: r_def)
  moreover have "getCheck x = Some (letters ! r)"
    using getCheck_four [OF l] by (simp add: r_def)
  ultimately show "\<exists>w \<in> set letters. getCheck x = Some w \<and> w \<noteq> ''NONE'' \<and> w \<noteq> []
                     \<and> CHR '' '' \<notin> set w"
    using letters_words [of r] by blast
qed

theorem getCheck_NONE_or_word_witness:
  "getCheck ''AAA'' = Some ''NONE'' \<and> getCheck ''CA12+'' = Some ''NONE''
   \<and> getCheck ''CA12'' = Some ''JULIET'' \<and> ''JULIET'' \<in> set letters"
proof -
  have "getCheck ''AAA'' = Some ''NONE''"
    using getCheck_NONE_or_word [of "''AAA''"] by simp
  moreover have "getCheck ''CA12+'' = Some ''NONE''"
    using getCheck_NONE_or_word [of "''CA12+''"] by simp
  moreover have "getCheck ''CA12'' = Some ''JULIET''"
    using getCheck_NONE_or_word [of "''CA12''"] getCheck_four [of "''CA12''"]
    by (simp add: letters_def)
  moreover have "''JULIET'' \<in> set letters" by (simp add: letters_def)
  ultimately show ?thesis by blast
qed

text \<open>
  C6. Two codes of four characters that agree on the first three, the second with the
  character code at position 3 one higher: the check letter of the second is three places
  further in the alphabet, modulo 26. \<open>AAAA\<close> gives \<open>ALPHA\<close> and \<open>AAAB\<close> gives \<open>DELTA\<close>.
\<close>

theorem getCheck_last_char_step:
  "(length s = 4 \<and> length t = 4 \<and> take 3 t = take 3 s
      \<and> (of_char (t ! 3) :: nat) = of_char (s ! 3) + 1 \<longrightarrow>
      (\<exists>r < 26. getCheck s = Some (letters ! r) \<and> getCheck t = Some (letters ! ((r + 3) mod 26))))
   \<and> getCheck ''AAAA'' = Some ''ALPHA'' \<and> getCheck ''AAAB'' = Some ''DELTA''"
proof (intro conjI impI)
  assume h: "length s = 4 \<and> length t = 4 \<and> take 3 t = take 3 s
      \<and> (of_char (t ! 3) :: nat) = of_char (s ! 3) + 1"
  then have ls: "length s = 4" and lt: "length t = 4" and tk: "take 3 t = take 3 s"
    and c3: "(of_char (t ! 3) :: nat) = of_char (s ! 3) + 1" by simp_all
  have same: "t ! k = s ! k" if "k < 3" for k
  proof -
    have "t ! k = take 3 t ! k" using that by simp
    also have "\<dots> = take 3 s ! k" by (simp only: tk)
    also have "\<dots> = s ! k" using that by simp
    finally show ?thesis .
  qed
  define a :: nat where
    "a = of_char (s ! 2) * 7 + of_char (s ! 3) * 3 + of_char (s ! 0) * 5 + of_char (s ! 1) * 7"
  have gs: "getCheck s = Some (letters ! (a mod 26))"
    using getCheck_four [OF ls] by (simp add: a_def)
  have "of_char (t ! 2) * 7 + of_char (t ! 3) * 3 + of_char (t ! 0) * 5 + of_char (t ! 1) * 7
          = a + 3"
    by (simp add: a_def c3 same)
  then have gt: "getCheck t = Some (letters ! ((a + 3) mod 26))"
    using getCheck_four [OF lt] by simp
  have "(a mod 26 + 3) mod 26 = (a + 3) mod 26" by presburger
  with gs gt show "\<exists>r < 26. getCheck s = Some (letters ! r)
                     \<and> getCheck t = Some (letters ! ((r + 3) mod 26))"
    by (intro exI [of _ "a mod 26"]) simp
next
  show "getCheck ''AAAA'' = Some ''ALPHA''"
    using getCheck_four [of "''AAAA''"] by (simp add: letters_def)
next
  show "getCheck ''AAAB'' = Some ''DELTA''"
    using getCheck_four [of "''AAAB''"] by (simp add: letters_def)
qed

theorem getCheck_last_char_step_witness:
  "length ''CA12'' = 4 \<and> length ''CA13'' = 4 \<and> take 3 ''CA13'' = take 3 ''CA12''
   \<and> (of_char (''CA13'' ! 3) :: nat) = of_char (''CA12'' ! 3) + 1
   \<and> (\<exists>r < 26. getCheck ''CA12'' = Some (letters ! r)
        \<and> getCheck ''CA13'' = Some (letters ! ((r + 3) mod 26)))"
  using getCheck_last_char_step [of "''CA12''" "''CA13''"] by simp

section \<open>The special locations\<close>

lemma substr_take_drop:
  "substr s (int k) (int n) = take n (drop k s)"
  by (auto simp: substr_def Let_def min_def max_def)

lemma substr_from_last:
  "substr_from s (- 1) = (if s = [] then [] else [last s])"
proof (cases s rule: rev_cases)
  case Nil
  then show ?thesis by (simp add: substr_from_def substr_def)
next
  case (snoc ys y)
  then show ?thesis by (simp add: substr_from_def substr_def Let_def)
qed

lemma substr_butlast:
  "substr s 0 (int (length s) - 1) = butlast s"
proof (cases s rule: rev_cases)
  case Nil
  then show ?thesis by (simp add: substr_def)
next
  case (snoc ys y)
  then show ?thesis by (simp add: substr_def Let_def)
qed

lemma getCheck_string: "\<exists>w. getCheck location = Some w"
proof (cases "length location = 4")
  case True
  then show ?thesis using getCheck_four by blast
next
  case False
  then show ?thesis by (simp add: getCheck_def)
qed

lemma page_texts:
  "checkDiv_text (Some w) (phoneticDiv_text s (p :: page)) = \<lparr>phoneticDiv = s, checkDiv = w\<rparr>"
  by (simp add: checkDiv_text_def phoneticDiv_text_def)

text \<open>The rules below the relative suffix, for a location that does not end in + or -.\<close>

lemma handleSpecialLocation_family:
  assumes "substr_from location (- 1) \<noteq> ''+''" and "substr_from location (- 1) \<noteq> ''-''"
  shows "handleSpecialLocation location p =
     (if location = ''SOB'' then
        (True, checkDiv_text (Some ''SIERRA'') (phoneticDiv_text ''SOB'' p))
      else if location = ''DPA'' then
        (True, checkDiv_text (Some ''VICTOR'') (phoneticDiv_text ''DPA'' p))
      else if location = ''RETS'' then
        (True, checkDiv_text (getCheck location) (phoneticDiv_text ''RETURNS'' p))
      else if substr location 0 2 = ''CA'' then
        (True, checkDiv_text (getCheck location)
           (phoneticDiv_text (jQuery_trim (''CASH OFFICE '' @ getPhonetic (substr location 2 4))) p))
      else if substr location 0 2 = ''CP'' then
        (True, checkDiv_text (getCheck location)
           (phoneticDiv_text
              (jQuery_trim (''COLLECTION POINT '' @ getPhonetic (substr location 2 4))) p))
      else if substr location 0 1 = ''J'' then
        (True, checkDiv_text (getCheck location)
           (phoneticDiv_text (jQuery_trim (''JEWELLERY '' @ getPhonetic (substr location 1 4))) p))
      else if substr location 0 1 = ''S'' then
        (True, checkDiv_text (getCheck location)
           (phoneticDiv_text (jQuery_trim (''SECURITY '' @ getPhonetic (substr location 1 4))) p))
      else if substr location 0 1 = ''L'' then
        (True, checkDiv_text (getCheck location)
           (phoneticDiv_text
              (jQuery_trim (getPhonetic (substr location 1 2) @ '' LINBIN ''
                 @ getPhonetic (substr location 3 4))) p))
      else if substr location 0 1 = ''Z'' then
        (True, checkDiv_text (getCheck location)
           (phoneticDiv_text
              (jQuery_trim (getPhonetic (substr location 1 2) @ '' BULK ''
                 @ trim (getPhonetic (substr location 3 4)))) p))
      else (False, p))"
  by (subst handleSpecialLocation.simps) (simp only: assms simp_thms if_False)

text \<open>The relative suffix rule, for a location that ends in + or -.\<close>

lemma handleSpecialLocation_suffix:
  assumes "location \<noteq> []" and "last location = CHR ''+'' \<or> last location = CHR ''-''"
  shows "handleSpecialLocation location p =
     (True, checkDiv_text (getCheck location)
        (let prefix = (if last location = CHR ''+'' then ''AFTER '' else ''BEFORE '');
             r = handleSpecialLocation (butlast location) p
         in if fst r then phoneticDiv_text (prefix @ phoneticDiv (snd r)) (snd r)
            else phoneticDiv_text (prefix @ getPhonetic (butlast location)) (snd r)))"
proof -
  have c: "substr_from location (- 1) = ''+'' \<or> substr_from location (- 1) = ''-''"
    using assms by (auto simp: substr_from_last)
  have pl: "(substr_from location (- 1) = ''+'') = (last location = CHR ''+'')"
    using assms by (simp add: substr_from_last)
  have mi: "(substr_from location (- 1) = ''-'') = (last location = CHR ''-'')"
    using assms by (simp add: substr_from_last)
  show ?thesis
    using assms(2)
    by (subst handleSpecialLocation.simps)
       (auto simp: c pl mi substr_butlast Let_def split: prod.splits)
qed

lemma getPhonetic_1A: "getPhonetic ''1A'' = ''ONE ALPHA''"
  by code_simp

lemma getPhonetic_12: "getPhonetic ''12'' = ''ONE TWO''"
  by code_simp

lemma getPhonetic_OB: "getPhonetic ''OB'' = ''OSCAR BRAVO''"
  by code_simp

lemma trim_SECURITY_1A: "jQuery_trim ''SECURITY ONE ALPHA'' = ''SECURITY ONE ALPHA''"
  by code_simp

lemma trim_SECURITY_OB: "jQuery_trim ''SECURITY OSCAR BRAVO'' = ''SECURITY OSCAR BRAVO''"
  by code_simp

lemma trim_CASH_12: "jQuery_trim ''CASH OFFICE ONE TWO'' = ''CASH OFFICE ONE TWO''"
  by code_simp

lemma handleSpecialLocation_S1A:
  "handleSpecialLocation ''S1A'' p =
     (True, \<lparr>phoneticDiv = ''SECURITY ONE ALPHA'', checkDiv = ''NONE''\<rparr>)"
proof -
  have "substr_from ''S1A'' (- 1) = ''A''" by (simp add: substr_from_def substr_def)
  then have "substr_from ''S1A'' (- 1) \<noteq> ''+''" "substr_from ''S1A'' (- 1) \<noteq> ''-''"
    by simp_all
  note f = handleSpecialLocation_family [OF this]
  have s: "substr ''S1A'' 0 2 = ''S1''" "substr ''S1A'' 0 1 = ''S''" "substr ''S1A'' 1 4 = ''1A''"
    by (simp_all add: substr_def)
  have g: "getCheck ''S1A'' = Some ''NONE''" by (simp add: getCheck_def)
  show ?thesis
    by (simp add: f s g getPhonetic_1A trim_SECURITY_1A page_texts)
qed

text \<open>
  C2. A location whose last character is + or - takes the relative suffix rule: the
  phonetic text is \<open>AFTER\<close> (for +) or \<open>BEFORE\<close> (for -) and a space, followed by the
  phonetic text that the function itself leaves for the location without its last
  character when that is a special location, and by \<open>getPhonetic\<close> of it otherwise; the
  check text is \<open>getCheck\<close> of the whole location, suffix included. \<open>S1A+\<close> gives
  \<open>AFTER SECURITY ONE ALPHA\<close> with the check of \<open>S1A+\<close>, which is not that of \<open>S1A\<close>.
\<close>

theorem handleSpecialLocation_relative_suffix:
  "(location \<noteq> [] \<and> (last location = CHR ''+'' \<or> last location = CHR ''-'') \<longrightarrow>
      (\<exists>w. getCheck location = Some w
         \<and> handleSpecialLocation location p =
             (True, \<lparr>phoneticDiv =
                       (if last location = CHR ''+'' then ''AFTER '' else ''BEFORE '')
                       @ (case handleSpecialLocation (butlast location) p of
                            (True, p1) \<Rightarrow> phoneticDiv p1
                          | (False, p1) \<Rightarrow> getPhonetic (butlast location)),
                     checkDiv = w\<rparr>)))
   \<and> handleSpecialLocation ''S1A+'' p =
       (True, \<lparr>phoneticDiv = ''AFTER SECURITY ONE ALPHA'', checkDiv = ''QUEBEC''\<rparr>)
   \<and> getCheck ''S1A+'' = Some ''QUEBEC''
   \<and> getCheck ''S1A'' = Some ''NONE''"
proof (intro conjI impI)
  assume h: "location \<noteq> [] \<and> (last location = CHR ''+'' \<or> last location = CHR ''-'')"
  obtain w where w: "getCheck location = Some w"
    using getCheck_string by blast
  obtain b p1 where r: "handleSpecialLocation (butlast location) p = (b, p1)"
    by (cases "handleSpecialLocation (butlast location) p")
  have "handleSpecialLocation location p =
          (True, \<lparr>phoneticDiv =
                    (if last location = CHR ''+'' then ''AFTER '' else ''BEFORE '')
                    @ (case handleSpecialLocation (butlast location) p of
                         (True, p1) \<Rightarrow> phoneticDiv p1
                       | (False, p1) \<Rightarrow> getPhonetic (butlast location)),
                  checkDiv = w\<rparr>)"
    using h by (simp add: handleSpecialLocation_suffix w r Let_def
        checkDiv_text_def phoneticDiv_text_def)
  with w show "\<exists>w. getCheck location = Some w
         \<and> handleSpecialLocation location p =
             (True, \<lparr>phoneticDiv =
                       (if last location = CHR ''+'' then ''AFTER '' else ''BEFORE '')
                       @ (case handleSpecialLocation (butlast location) p of
                            (True, p1) \<Rightarrow> phoneticDiv p1
                          | (False, p1) \<Rightarrow> getPhonetic (butlast location)),
                     checkDiv = w\<rparr>)"
    by blast
next
  have g: "getCheck ''S1A+'' = Some ''QUEBEC''"
    using getCheck_four [of "''S1A+''"] by (simp add: letters_def)
  show "handleSpecialLocation ''S1A+'' p =
       (True, \<lparr>phoneticDiv = ''AFTER SECURITY ONE ALPHA'', checkDiv = ''QUEBEC''\<rparr>)"
    using handleSpecialLocation_suffix [of "''S1A+''" p]
    by (simp add: handleSpecialLocation_S1A g checkDiv_text_def phoneticDiv_text_def)
  show "getCheck ''S1A+'' = Some ''QUEBEC''" by (rule g)
  show "getCheck ''S1A'' = Some ''NONE''" by (simp add: getCheck_def)
qed

theorem handleSpecialLocation_relative_suffix_witness:
  "''AB1-'' \<noteq> [] \<and> (last ''AB1-'' = CHR ''+'' \<or> last ''AB1-'' = CHR ''-'')
   \<and> handleSpecialLocation ''AB1-'' \<lparr>phoneticDiv = ''NONE'', checkDiv = ''NONE''\<rparr> =
       (True, \<lparr>phoneticDiv = ''BEFORE ALPHA BRAVO ONE'', checkDiv = ''ROMEO''\<rparr>)"
proof -
  let ?p = "\<lparr>phoneticDiv = ''NONE'', checkDiv = ''NONE''\<rparr>"
  have "substr_from ''AB1'' (- 1) = ''1''" by (simp add: substr_from_def substr_def)
  then have "substr_from ''AB1'' (- 1) \<noteq> ''+''" "substr_from ''AB1'' (- 1) \<noteq> ''-''"
    by simp_all
  note f = handleSpecialLocation_family [OF this]
  have n: "handleSpecialLocation ''AB1'' ?p = (False, ?p)"
    by (simp add: f substr_def)
  have g: "getCheck ''AB1-'' = Some ''ROMEO''"
    using getCheck_four [of "''AB1-''"] by (simp add: letters_def)
  have ph: "getPhonetic ''AB1'' = ''ALPHA BRAVO ONE''" by code_simp
  show ?thesis
    using handleSpecialLocation_relative_suffix [of "''AB1-''" ?p]
    by (simp add: n g ph)
qed

text \<open>
  C5. \<open>SOB\<close> and \<open>DPA\<close> are written as they are, with the fixed check texts \<open>SIERRA\<close> and
  \<open>VICTOR\<close>; \<open>getCheck\<close> of either would be \<open>NONE\<close>. \<open>SOB\<close> starts with \<open>S\<close>, and the
  Security rule would have given \<open>SECURITY OSCAR BRAVO\<close>: the exact rule comes first.
\<close>

theorem handleSpecialLocation_SOB_DPA:
  "handleSpecialLocation ''SOB'' p = (True, \<lparr>phoneticDiv = ''SOB'', checkDiv = ''SIERRA''\<rparr>)
   \<and> handleSpecialLocation ''DPA'' p = (True, \<lparr>phoneticDiv = ''DPA'', checkDiv = ''VICTOR''\<rparr>)
   \<and> getCheck ''SOB'' = Some ''NONE'' \<and> getCheck ''DPA'' = Some ''NONE''
   \<and> substr ''SOB'' 0 1 = ''S''
   \<and> jQuery_trim (''SECURITY '' @ getPhonetic (substr ''SOB'' 1 4)) = ''SECURITY OSCAR BRAVO''
   \<and> phoneticDiv (snd (handleSpecialLocation ''SOB'' p))
       \<noteq> jQuery_trim (''SECURITY '' @ getPhonetic (substr ''SOB'' 1 4))"
proof -
  have "substr_from ''SOB'' (- 1) = ''B''" by (simp add: substr_from_def substr_def)
  then have "substr_from ''SOB'' (- 1) \<noteq> ''+''" "substr_from ''SOB'' (- 1) \<noteq> ''-''"
    by simp_all
  note f = handleSpecialLocation_family [OF this]
  have "substr_from ''DPA'' (- 1) = ''A''" by (simp add: substr_from_def substr_def)
  then have "substr_from ''DPA'' (- 1) \<noteq> ''+''" "substr_from ''DPA'' (- 1) \<noteq> ''-''"
    by simp_all
  note d = handleSpecialLocation_family [OF this]
  have sob: "handleSpecialLocation ''SOB'' p
               = (True, \<lparr>phoneticDiv = ''SOB'', checkDiv = ''SIERRA''\<rparr>)"
    by (simp add: f page_texts)
  have dpa: "handleSpecialLocation ''DPA'' p
               = (True, \<lparr>phoneticDiv = ''DPA'', checkDiv = ''VICTOR''\<rparr>)"
    by (simp add: d page_texts)
  have s: "substr ''SOB'' 0 1 = ''S''" "substr ''SOB'' 1 4 = ''OB''"
    by (simp_all add: substr_def)
  have sec: "jQuery_trim (''SECURITY '' @ getPhonetic (substr ''SOB'' 1 4))
               = ''SECURITY OSCAR BRAVO''"
    by (simp add: s getPhonetic_OB trim_SECURITY_OB)
  have g: "getCheck ''SOB'' = Some ''NONE''" "getCheck ''DPA'' = Some ''NONE''"
    by (simp_all add: getCheck_def)
  have ne: "phoneticDiv (snd (handleSpecialLocation ''SOB'' p))
               \<noteq> jQuery_trim (''SECURITY '' @ getPhonetic (substr ''SOB'' 1 4))"
    unfolding sob sec by simp
  show ?thesis
    by (intro conjI) (rule sob dpa g s(1) sec ne)+
qed

text \<open>
  What trimming does, said without the definition of \<open>trim\<close>: the string is the trimmed
  string between two runs of white space, and a string that holds a character other than
  white space is trimmed to a string that is not empty and has no white space at either
  end.
\<close>

lemma trim_decompose:
  "\<exists>a b. s = a @ trim s @ b \<and> list_all isWhiteSpace a \<and> list_all isWhiteSpace b"
proof -
  define m where "m = dropWhile isWhiteSpace s"
  define a where "a = takeWhile isWhiteSpace s"
  define b where "b = rev (takeWhile isWhiteSpace (rev m))"
  have s: "s = a @ m" by (simp add: a_def m_def)
  have "rev (takeWhile isWhiteSpace (rev m) @ dropWhile isWhiteSpace (rev m)) = rev (rev m)"
    by (simp only: takeWhile_dropWhile_id)
  then have "rev (dropWhile isWhiteSpace (rev m)) @ rev (takeWhile isWhiteSpace (rev m)) = m"
    by (simp only: rev_append rev_rev_ident)
  then have m: "m = trim s @ b"
    by (simp only: trim_def b_def m_def)
  have wa: "list_all isWhiteSpace a"
    by (simp add: a_def list_all_iff) (metis set_takeWhileD)
  have wb: "list_all isWhiteSpace b"
    by (simp add: b_def list_all_iff) (metis set_takeWhileD)
  from s m wa wb show ?thesis by blast
qed

lemma trim_ends:
  assumes "\<exists>c \<in> set s. \<not> isWhiteSpace c"
  shows "trim s \<noteq> []" and "\<not> isWhiteSpace (hd (trim s))" and "\<not> isWhiteSpace (last (trim s))"
proof -
  define m where "m = dropWhile isWhiteSpace s"
  define k where "k = dropWhile isWhiteSpace (rev m)"
  have t: "trim s = rev k" by (simp add: trim_def k_def m_def)
  have mne: "m \<noteq> []"
    using assms by (simp add: m_def)
  then have hm: "\<not> isWhiteSpace (hd m)"
    unfolding m_def by (rule hd_dropWhile)
  have "hd m \<in> set (rev m)" using mne by simp
  with hm have kne: "k \<noteq> []"
    by (auto simp: k_def)
  then have hk: "\<not> isWhiteSpace (hd k)"
    unfolding k_def by (rule hd_dropWhile)
  have "rev m = takeWhile isWhiteSpace (rev m) @ k" by (simp add: k_def)
  then have "last (rev m) = last (takeWhile isWhiteSpace (rev m) @ k)" by (rule arg_cong)
  then have "last k = last (rev m)" using kne by simp
  also have "\<dots> = hd m" using mne by (simp add: last_rev)
  finally have lk: "last k = hd m" .
  show "trim s \<noteq> []" using kne by (simp add: t)
  show "\<not> isWhiteSpace (hd (trim s))" using hm lk kne by (simp add: t hd_rev)
  show "\<not> isWhiteSpace (last (trim s))" using hk kne by (simp add: t last_rev)
qed

lemma getPhonetic_empty: "getPhonetic [] = []"
  by (simp add: getPhonetic_def getPhonetic_loop.simps)

lemma trim_CASH: "jQuery_trim ''CASH OFFICE '' = ''CASH OFFICE''"
  by code_simp

lemma trim_LINBIN_12: "jQuery_trim ''ONE TWO LINBIN '' = ''ONE TWO LINBIN''"
  by code_simp

lemma trim_LINBIN: "jQuery_trim '' LINBIN '' = ''LINBIN''"
  by code_simp

text \<open>
  C7. A location that starts with \<open>CA\<close> and does not end in + or - (no earlier rule takes
  it): the phonetic text is \<open>CASH OFFICE\<close>, a space and \<open>getPhonetic\<close> of
  \<open>substr(2, 4)\<close>, trimmed, and the check text is \<open>getCheck\<close> of the whole location.
  Trimmed: the text is what is left of that string between two runs of white space, it is
  not empty and it has no white space at either end. \<open>substr(2, 4)\<close> is all that follows
  the first two characters for a location of up to six characters. \<open>CA12\<close> gives
  \<open>CASH OFFICE ONE TWO\<close> and its check \<open>JULIET\<close>; \<open>CA\<close> alone gives \<open>CASH OFFICE\<close>, the
  space at the end trimmed away.
\<close>

theorem handleSpecialLocation_cash_office:
  "(take 2 location = ''CA'' \<and> last location \<noteq> CHR ''+'' \<and> last location \<noteq> CHR ''-'' \<longrightarrow>
      (\<exists>w ph a b. getCheck location = Some w
         \<and> handleSpecialLocation location p = (True, \<lparr>phoneticDiv = ph, checkDiv = w\<rparr>)
         \<and> ph = jQuery_trim (''CASH OFFICE '' @ getPhonetic (substr location 2 4))
         \<and> ''CASH OFFICE '' @ getPhonetic (substr location 2 4) = a @ ph @ b
         \<and> list_all isWhiteSpace a \<and> list_all isWhiteSpace b
         \<and> ph \<noteq> [] \<and> \<not> isWhiteSpace (hd ph) \<and> \<not> isWhiteSpace (last ph))
      \<and> (length location \<le> 6 \<longrightarrow> substr location 2 4 = drop 2 location))
   \<and> handleSpecialLocation ''CA12'' p =
       (True, \<lparr>phoneticDiv = ''CASH OFFICE ONE TWO'', checkDiv = ''JULIET''\<rparr>)
   \<and> getCheck ''CA12'' = Some ''JULIET''
   \<and> handleSpecialLocation ''CA'' p =
       (True, \<lparr>phoneticDiv = ''CASH OFFICE'', checkDiv = ''NONE''\<rparr>)
   \<and> ''CASH OFFICE '' @ getPhonetic (substr ''CA'' 2 4) = ''CASH OFFICE ''"
proof -
  have base: "\<exists>w. getCheck location = Some w
         \<and> handleSpecialLocation location p =
             (True, \<lparr>phoneticDiv =
                       jQuery_trim (''CASH OFFICE '' @ getPhonetic (substr location 2 4)),
                     checkDiv = w\<rparr>)"
    if h: "take 2 location = ''CA''" "last location \<noteq> CHR ''+''" "last location \<noteq> CHR ''-''"
    for location
  proof -
    have "substr_from location (- 1) \<noteq> ''+''" "substr_from location (- 1) \<noteq> ''-''"
      using h by (simp_all add: substr_from_last)
    note f = handleSpecialLocation_family [OF this]
    have ca: "substr location 0 2 = ''CA''"
      using substr_take_drop [of location 0 2] h(1) by simp
    have ne: "location \<noteq> ''SOB''" "location \<noteq> ''DPA''" "location \<noteq> ''RETS''"
      using h(1) by auto
    obtain w where w: "getCheck location = Some w"
      using getCheck_string by blast
    have "handleSpecialLocation location p =
             (True, \<lparr>phoneticDiv =
                       jQuery_trim (''CASH OFFICE '' @ getPhonetic (substr location 2 4)),
                     checkDiv = w\<rparr>)"
      by (simp add: f ca ne w page_texts)
    with w show ?thesis by blast
  qed
  have gen: "\<exists>w ph a b. getCheck location = Some w
         \<and> handleSpecialLocation location p = (True, \<lparr>phoneticDiv = ph, checkDiv = w\<rparr>)
         \<and> ph = jQuery_trim (''CASH OFFICE '' @ getPhonetic (substr location 2 4))
         \<and> ''CASH OFFICE '' @ getPhonetic (substr location 2 4) = a @ ph @ b
         \<and> list_all isWhiteSpace a \<and> list_all isWhiteSpace b
         \<and> ph \<noteq> [] \<and> \<not> isWhiteSpace (hd ph) \<and> \<not> isWhiteSpace (last ph)"
    if h: "take 2 location = ''CA''" "last location \<noteq> CHR ''+''" "last location \<noteq> CHR ''-''"
  proof -
    define u where "u = ''CASH OFFICE '' @ getPhonetic (substr location 2 4)"
    obtain w where w: "getCheck location = Some w"
      and r: "handleSpecialLocation location p
                = (True, \<lparr>phoneticDiv = jQuery_trim u, checkDiv = w\<rparr>)"
      using base [OF h] unfolding u_def by blast
    obtain a b where d: "u = a @ jQuery_trim u @ b"
      and wa: "list_all isWhiteSpace a" and wb: "list_all isWhiteSpace b"
      using trim_decompose [of u] unfolding jQuery_trim_def by blast
    have "CHR ''C'' \<in> set u" by (simp add: u_def)
    moreover have "\<not> isWhiteSpace CHR ''C''" by (simp add: isWhiteSpace_def)
    ultimately have "\<exists>c \<in> set u. \<not> isWhiteSpace c" by blast
    note e = trim_ends [OF this, folded jQuery_trim_def]
    show ?thesis
      using w r d wa wb e unfolding u_def by blast
  qed
  have rest: "substr location 2 4 = drop 2 location" if "length location \<le> 6"
    using substr_take_drop [of location 2 4] that by simp
  have g: "getCheck ''CA12'' = Some ''JULIET''"
    using getCheck_four [of "''CA12''"] by (simp add: letters_def)
  have s: "substr ''CA12'' 2 4 = ''12''" by (simp add: substr_def)
  have ca12: "handleSpecialLocation ''CA12'' p =
       (True, \<lparr>phoneticDiv = ''CASH OFFICE ONE TWO'', checkDiv = ''JULIET''\<rparr>)"
    using base [of "''CA12''"] by (simp add: g s getPhonetic_12 trim_CASH_12)
  have gca: "getCheck ''CA'' = Some ''NONE''" by (simp add: getCheck_def)
  have sca: "substr ''CA'' 2 4 = []" by (simp add: substr_def)
  have ca: "handleSpecialLocation ''CA'' p =
       (True, \<lparr>phoneticDiv = ''CASH OFFICE'', checkDiv = ''NONE''\<rparr>)"
    using base [of "''CA''"] by (simp add: gca sca getPhonetic_empty trim_CASH)
  have un: "''CASH OFFICE '' @ getPhonetic (substr ''CA'' 2 4) = ''CASH OFFICE ''"
    by (simp add: sca getPhonetic_empty)
  show ?thesis
    using gen rest ca12 g ca un by blast
qed

theorem handleSpecialLocation_cash_office_witness:
  "take 2 ''CA'' = ''CA'' \<and> last ''CA'' \<noteq> CHR ''+'' \<and> last ''CA'' \<noteq> CHR ''-''
   \<and> length ''CA'' \<le> 6
   \<and> substr ''CA'' 2 4 = drop 2 ''CA''
   \<and> handleSpecialLocation ''CA'' \<lparr>phoneticDiv = ''NONE'', checkDiv = ''NONE''\<rparr> =
       (True, \<lparr>phoneticDiv = ''CASH OFFICE'', checkDiv = ''NONE''\<rparr>)
   \<and> \<not> isWhiteSpace (last ''CASH OFFICE'')
   \<and> isWhiteSpace (last (''CASH OFFICE '' @ getPhonetic (substr ''CA'' 2 4)))"
proof -
  let ?p = "\<lparr>phoneticDiv = ''NONE'', checkDiv = ''NONE''\<rparr>"
  note t = handleSpecialLocation_cash_office [of "''CA''" ?p]
  have h: "take 2 ''CA'' = ''CA'' \<and> last ''CA'' \<noteq> CHR ''+'' \<and> last ''CA'' \<noteq> CHR ''-''"
    by simp
  have l: "length ''CA'' \<le> 6" by simp
  have sca: "substr ''CA'' 2 4 = []" by (simp add: substr_def)
  have gca: "getCheck ''CA'' = Some ''NONE''" by (simp add: getCheck_def)
  obtain w ph where w: "getCheck ''CA'' = Some w"
    and r: "handleSpecialLocation ''CA'' ?p = (True, \<lparr>phoneticDiv = ph, checkDiv = w\<rparr>)"
    and ph: "ph = jQuery_trim (''CASH OFFICE '' @ getPhonetic (substr ''CA'' 2 4))"
    and e: "\<not> isWhiteSpace (last ph)"
    using t h by blast
  have d: "substr ''CA'' 2 4 = drop 2 ''CA''"
    using t h l by blast
  have w': "w = ''NONE''" using w gca by simp
  have ph': "ph = ''CASH OFFICE''"
    using ph by (simp add: sca getPhonetic_empty trim_CASH)
  have r': "handleSpecialLocation ''CA'' ?p
              = (True, \<lparr>phoneticDiv = ''CASH OFFICE'', checkDiv = ''NONE''\<rparr>)"
    using r by (simp only: w' ph')
  have e': "\<not> isWhiteSpace (last ''CASH OFFICE'')"
    using e by (simp add: ph')
  have u: "isWhiteSpace (last (''CASH OFFICE '' @ getPhonetic (substr ''CA'' 2 4)))"
    by (simp add: sca getPhonetic_empty isWhiteSpace_def)
  show ?thesis
    using h l d r' e' u by blast
qed

text \<open>
  C8. A location that starts with \<open>L\<close> and does not end in + or - (no earlier rule takes
  it): the phonetic text is \<open>getPhonetic\<close> of \<open>substr(1, 2)\<close>, then \<open>LINBIN\<close> between two
  spaces, then \<open>getPhonetic\<close> of \<open>substr(3, 4)\<close>, trimmed, and the check text is \<open>getCheck\<close>
  of the whole location. Trimmed: the text is what is left of that string between two runs
  of white space, it is not empty and it has no white space at either end. For a location
  of four characters \<open>substr(1, 2)\<close> is the two characters at indices 1 and 2, and
  \<open>substr(3, 4)\<close> the one character at index 3. \<open>L12\<close> gives \<open>ONE TWO LINBIN\<close> and \<open>L\<close>
  alone gives \<open>LINBIN\<close>, the spaces at the ends trimmed away.
\<close>

theorem handleSpecialLocation_linbin:
  "(take 1 location = ''L'' \<and> last location \<noteq> CHR ''+'' \<and> last location \<noteq> CHR ''-'' \<longrightarrow>
      (\<exists>w ph a b. getCheck location = Some w
         \<and> handleSpecialLocation location p = (True, \<lparr>phoneticDiv = ph, checkDiv = w\<rparr>)
         \<and> ph = jQuery_trim (getPhonetic (substr location 1 2) @ '' LINBIN ''
                   @ getPhonetic (substr location 3 4))
         \<and> getPhonetic (substr location 1 2) @ '' LINBIN '' @ getPhonetic (substr location 3 4)
             = a @ ph @ b
         \<and> list_all isWhiteSpace a \<and> list_all isWhiteSpace b
         \<and> ph \<noteq> [] \<and> \<not> isWhiteSpace (hd ph) \<and> \<not> isWhiteSpace (last ph))
      \<and> (length location = 4 \<longrightarrow>
            substr location 1 2 = [location ! 1, location ! 2]
          \<and> substr location 3 4 = [location ! 3]))
   \<and> handleSpecialLocation ''L12'' p =
       (True, \<lparr>phoneticDiv = ''ONE TWO LINBIN'', checkDiv = ''NONE''\<rparr>)
   \<and> getPhonetic (substr ''L12'' 1 2) @ '' LINBIN '' @ getPhonetic (substr ''L12'' 3 4)
       = ''ONE TWO LINBIN ''
   \<and> handleSpecialLocation ''L'' p =
       (True, \<lparr>phoneticDiv = ''LINBIN'', checkDiv = ''NONE''\<rparr>)
   \<and> getPhonetic (substr ''L'' 1 2) @ '' LINBIN '' @ getPhonetic (substr ''L'' 3 4)
       = '' LINBIN ''"
proof -
  have base: "\<exists>w. getCheck location = Some w
         \<and> handleSpecialLocation location p =
             (True, \<lparr>phoneticDiv =
                       jQuery_trim (getPhonetic (substr location 1 2) @ '' LINBIN ''
                         @ getPhonetic (substr location 3 4)),
                     checkDiv = w\<rparr>)"
    if h: "take 1 location = ''L''" "last location \<noteq> CHR ''+''" "last location \<noteq> CHR ''-''"
    for location
  proof -
    have "substr_from location (- 1) \<noteq> ''+''" "substr_from location (- 1) \<noteq> ''-''"
      using h by (simp_all add: substr_from_last)
    note f = handleSpecialLocation_family [OF this]
    obtain t where t: "location = CHR ''L'' # t"
      using h(1) by (cases location) auto
    have l: "substr location 0 1 = ''L''"
      using substr_take_drop [of location 0 1] h(1) by simp
    have two: "substr location 0 2 = CHR ''L'' # take 1 t"
      using substr_take_drop [of location 0 2] by (simp add: t)
    have ne: "location \<noteq> ''SOB''" "location \<noteq> ''DPA''" "location \<noteq> ''RETS''"
      by (simp_all add: t)
    obtain w where w: "getCheck location = Some w"
      using getCheck_string by blast
    have "handleSpecialLocation location p =
             (True, \<lparr>phoneticDiv =
                       jQuery_trim (getPhonetic (substr location 1 2) @ '' LINBIN ''
                         @ getPhonetic (substr location 3 4)),
                     checkDiv = w\<rparr>)"
      by (simp add: f l two ne w page_texts)
    with w show ?thesis by blast
  qed
  have gen: "\<exists>w ph a b. getCheck location = Some w
         \<and> handleSpecialLocation location p = (True, \<lparr>phoneticDiv = ph, checkDiv = w\<rparr>)
         \<and> ph = jQuery_trim (getPhonetic (substr location 1 2) @ '' LINBIN ''
                   @ getPhonetic (substr location 3 4))
         \<and> getPhonetic (substr location 1 2) @ '' LINBIN '' @ getPhonetic (substr location 3 4)
             = a @ ph @ b
         \<and> list_all isWhiteSpace a \<and> list_all isWhiteSpace b
         \<and> ph \<noteq> [] \<and> \<not> isWhiteSpace (hd ph) \<and> \<not> isWhiteSpace (last ph)"
    if h: "take 1 location = ''L''" "last location \<noteq> CHR ''+''" "last location \<noteq> CHR ''-''"
  proof -
    define u where "u = getPhonetic (substr location 1 2) @ '' LINBIN ''
                          @ getPhonetic (substr location 3 4)"
    obtain w where w: "getCheck location = Some w"
      and r: "handleSpecialLocation location p
                = (True, \<lparr>phoneticDiv = jQuery_trim u, checkDiv = w\<rparr>)"
      using base [OF h] unfolding u_def by blast
    obtain a b where d: "u = a @ jQuery_trim u @ b"
      and wa: "list_all isWhiteSpace a" and wb: "list_all isWhiteSpace b"
      using trim_decompose [of u] unfolding jQuery_trim_def by blast
    have "CHR ''L'' \<in> set u" by (simp add: u_def)
    moreover have "\<not> isWhiteSpace CHR ''L''" by (simp add: isWhiteSpace_def)
    ultimately have "\<exists>c \<in> set u. \<not> isWhiteSpace c" by blast
    note e = trim_ends [OF this, folded jQuery_trim_def]
    show ?thesis
      using w r d wa wb e unfolding u_def by blast
  qed
  have slices: "substr location 1 2 = [location ! 1, location ! 2]
                  \<and> substr location 3 4 = [location ! 3]"
    if "length location = 4"
  proof -
    from that obtain a b c d where abcd: "location = [a, b, c, d]"
      by (cases location; simp; rename_tac x xs; case_tac xs; simp;
          rename_tac y ys; case_tac ys; simp; rename_tac z zs; case_tac zs; simp)
    have "substr location 1 2 = [location ! 1, location ! 2]"
      using substr_take_drop [of location 1 2] by (simp add: abcd)
    moreover have "substr location 3 4 = [location ! 3]"
      using substr_take_drop [of location 3 4] by (simp add: abcd)
    ultimately show ?thesis by blast
  qed
  have s12: "substr ''L12'' 1 2 = ''12''" "substr ''L12'' 3 4 = []"
    by (simp_all add: substr_def)
  have g12: "getCheck ''L12'' = Some ''NONE''" by (simp add: getCheck_def)
  have l12: "handleSpecialLocation ''L12'' p =
       (True, \<lparr>phoneticDiv = ''ONE TWO LINBIN'', checkDiv = ''NONE''\<rparr>)"
    using base [of "''L12''"]
    by (simp add: g12 s12 getPhonetic_12 getPhonetic_empty trim_LINBIN_12)
  have u12: "getPhonetic (substr ''L12'' 1 2) @ '' LINBIN '' @ getPhonetic (substr ''L12'' 3 4)
       = ''ONE TWO LINBIN ''"
    by (simp add: s12 getPhonetic_12 getPhonetic_empty)
  have s1: "substr ''L'' 1 2 = []" "substr ''L'' 3 4 = []"
    by (simp_all add: substr_def)
  have g1: "getCheck ''L'' = Some ''NONE''" by (simp add: getCheck_def)
  have l1: "handleSpecialLocation ''L'' p =
       (True, \<lparr>phoneticDiv = ''LINBIN'', checkDiv = ''NONE''\<rparr>)"
    using base [of "''L''"] by (simp add: g1 s1 getPhonetic_empty trim_LINBIN)
  have u1: "getPhonetic (substr ''L'' 1 2) @ '' LINBIN '' @ getPhonetic (substr ''L'' 3 4)
       = '' LINBIN ''"
    by (simp add: s1 getPhonetic_empty)
  show ?thesis
    using gen slices l12 u12 l1 u1 by blast
qed

theorem handleSpecialLocation_linbin_witness:
  "take 1 ''L123'' = ''L'' \<and> last ''L123'' \<noteq> CHR ''+'' \<and> last ''L123'' \<noteq> CHR ''-''
   \<and> length ''L123'' = 4
   \<and> substr ''L123'' 1 2 = ''12'' \<and> substr ''L123'' 3 4 = ''3''
   \<and> handleSpecialLocation ''L123'' \<lparr>phoneticDiv = ''NONE'', checkDiv = ''NONE''\<rparr> =
       (True, \<lparr>phoneticDiv = ''ONE TWO LINBIN THREE'', checkDiv = ''ECHO''\<rparr>)
   \<and> take 1 ''L12'' = ''L'' \<and> last ''L12'' \<noteq> CHR ''+'' \<and> last ''L12'' \<noteq> CHR ''-''
   \<and> handleSpecialLocation ''L12'' \<lparr>phoneticDiv = ''NONE'', checkDiv = ''NONE''\<rparr> =
       (True, \<lparr>phoneticDiv = ''ONE TWO LINBIN'', checkDiv = ''NONE''\<rparr>)
   \<and> \<not> isWhiteSpace (last ''ONE TWO LINBIN'')
   \<and> isWhiteSpace
        (last (getPhonetic (substr ''L12'' 1 2) @ '' LINBIN '' @ getPhonetic (substr ''L12'' 3 4)))"
proof -
  let ?p = "\<lparr>phoneticDiv = ''NONE'', checkDiv = ''NONE''\<rparr>"
  note t4 = handleSpecialLocation_linbin [of "''L123''" ?p]
  note t3 = handleSpecialLocation_linbin [of "''L12''" ?p]
  have h4: "take 1 ''L123'' = ''L'' \<and> last ''L123'' \<noteq> CHR ''+'' \<and> last ''L123'' \<noteq> CHR ''-''"
    by simp
  have l4: "length ''L123'' = 4" by simp
  have h3: "take 1 ''L12'' = ''L'' \<and> last ''L12'' \<noteq> CHR ''+'' \<and> last ''L12'' \<noteq> CHR ''-''"
    by simp
  have g4: "getCheck ''L123'' = Some ''ECHO''"
    using getCheck_four [of "''L123''"] by (simp add: letters_def)
  have ph3: "getPhonetic ''3'' = ''THREE''" by code_simp
  have tr4: "jQuery_trim ''ONE TWO LINBIN THREE'' = ''ONE TWO LINBIN THREE''" by code_simp
  have "substr ''L123'' 1 2 = [''L123'' ! 1, ''L123'' ! 2] \<and> substr ''L123'' 3 4 = [''L123'' ! 3]"
    using t4 h4 l4 by blast
  then have sl: "substr ''L123'' 1 2 = ''12''" "substr ''L123'' 3 4 = ''3''"
    by simp_all
  obtain w ph where w: "getCheck ''L123'' = Some w"
    and r: "handleSpecialLocation ''L123'' ?p = (True, \<lparr>phoneticDiv = ph, checkDiv = w\<rparr>)"
    and ph: "ph = jQuery_trim (getPhonetic (substr ''L123'' 1 2) @ '' LINBIN ''
                     @ getPhonetic (substr ''L123'' 3 4))"
    using t4 h4 by blast
  have w': "w = ''ECHO''" using w g4 by simp
  have ph': "ph = ''ONE TWO LINBIN THREE''"
    using ph by (simp add: sl getPhonetic_12 ph3 tr4)
  have r4: "handleSpecialLocation ''L123'' ?p
              = (True, \<lparr>phoneticDiv = ''ONE TWO LINBIN THREE'', checkDiv = ''ECHO''\<rparr>)"
    using r by (simp only: w' ph')
  have s12: "substr ''L12'' 1 2 = ''12''" "substr ''L12'' 3 4 = []"
    by (simp_all add: substr_def)
  have g3: "getCheck ''L12'' = Some ''NONE''" by (simp add: getCheck_def)
  obtain v qh where v: "getCheck ''L12'' = Some v"
    and q: "handleSpecialLocation ''L12'' ?p = (True, \<lparr>phoneticDiv = qh, checkDiv = v\<rparr>)"
    and qh: "qh = jQuery_trim (getPhonetic (substr ''L12'' 1 2) @ '' LINBIN ''
                     @ getPhonetic (substr ''L12'' 3 4))"
    and e: "\<not> isWhiteSpace (last qh)"
    using t3 h3 by blast
  have v': "v = ''NONE''" using v g3 by simp
  have qh': "qh = ''ONE TWO LINBIN''"
    using qh by (simp add: s12 getPhonetic_12 getPhonetic_empty trim_LINBIN_12)
  have r3: "handleSpecialLocation ''L12'' ?p
              = (True, \<lparr>phoneticDiv = ''ONE TWO LINBIN'', checkDiv = ''NONE''\<rparr>)"
    using q by (simp only: v' qh')
  have e': "\<not> isWhiteSpace (last ''ONE TWO LINBIN'')"
    using e by (simp add: qh')
  have u: "isWhiteSpace
        (last (getPhonetic (substr ''L12'' 1 2) @ '' LINBIN '' @ getPhonetic (substr ''L12'' 3 4)))"
    by (simp add: s12 getPhonetic_12 getPhonetic_empty isWhiteSpace_def)
  show ?thesis
    using h4 l4 sl r4 h3 r3 e' u by blast
qed

section \<open>The phonetic text\<close>

lemma toUpperCase_Cons:
  "toUpperCase (c # cs) = toUpperCase_char c @ toUpperCase cs"
  by (simp add: toUpperCase_def)

lemma substr_first:
  "substr (c # cs) 0 1 = [c]"
  by (simp add: substr_def)

lemma substr_at:
  assumes "i < length s"
  shows "substr s (int i) (int i + 1) = s ! i # take i (drop (Suc i) s)"
proof -
  have "substr s (int i) (int (Suc i)) = take (Suc i) (drop i s)"
    by (rule substr_take_drop)
  also have "drop i s = s ! i # drop (Suc i) s"
    using assms by (simp add: Cons_nth_drop_Suc)
  finally show ?thesis by (simp add: add.commute)
qed

lemma convertToWord_upper:
  assumes "isUpperAlnum c"
  shows "convertToWord (toUpperCase (c # rest)) = Some (spec_word c)"
proof -
  have u: "toUpperCase_char c = [c]"
    using assms by (auto simp: isUpperAlnum_def isDigit_def toUpperCase_char_def)
  have f: "substr (toUpperCase (c # rest)) 0 1 = [c]"
    by (simp add: toUpperCase_Cons u substr_first)
  show ?thesis
  proof (cases "isDigit c")
    case True
    then have "\<not> isNaN [c]" by (simp add: isNaN_def)
    moreover have "element numbers [c] = Some (numbers ! (of_char c - 48))"
      using True by (auto simp: element_def index_def numbers_def isDigit_def nat_diff_distrib)
    ultimately show ?thesis
      using True by (simp add: convertToWord_def f spec_word_def)
  next
    case False
    with assms have r: "65 \<le> (of_char c :: nat)" "(of_char c :: nat) \<le> 90"
      by (simp_all add: isUpperAlnum_def)
    then have "isNaN [c]"
      using False by (auto simp: isNaN_def isWhiteSpace_def)
    moreover have "toUpperCase [c] = [c]"
      by (simp add: toUpperCase_def u)
    moreover have "index letters (int (of_char c) - 65) = Some (letters ! (of_char c - 65))"
      using r by (auto simp: index_def letters_def nat_diff_distrib)
    ultimately show ?thesis
      using False by (simp add: convertToWord_def f charCodeAt_def spec_word_def)
  qed
qed

lemma getPhonetic_loop_step:
  assumes "i < length s"
  shows "getPhonetic_loop s i r =
           getPhonetic_loop s (Suc i)
             ((if substr s (int i) (int i + 1) \<noteq> ''+''
               then r @ toString (convertToWord (toUpperCase (substr s (int i) (int i + 1))))
               else r)
              @ (if Suc i = length s then [] else '' ''))"
proof -
  have e: "(int i \<noteq> int (length s) - 1) = (Suc i \<noteq> length s)" by linarith
  have "getPhonetic_loop s i r =
          getPhonetic_loop s (i + 1)
            (if Suc i \<noteq> length s
             then (if substr s (int i) (int i + 1) \<noteq> ''+''
                   then r @ toString (convertToWord (toUpperCase (substr s (int i) (int i + 1))))
                   else r) @ '' ''
             else (if substr s (int i) (int i + 1) \<noteq> ''+''
                   then r @ toString (convertToWord (toUpperCase (substr s (int i) (int i + 1))))
                   else r))"
    using assms by (subst getPhonetic_loop.simps) (simp only: e Let_def if_True simp_thms)
  then show ?thesis
    by (cases "Suc i = length s") simp_all
qed

lemma getPhonetic_loop_upper:
  assumes "\<forall>c \<in> set s. isUpperAlnum c"
  shows "n = length s - i \<Longrightarrow> i \<le> length s \<Longrightarrow>
         getPhonetic_loop s i r = r @ spec_join (map spec_word (drop i s))"
proof (induction n arbitrary: i r)
  case 0
  then show ?case by (simp add: getPhonetic_loop.simps)
next
  case (Suc n)
  then have i: "i < length s" by simp
  then have a: "isUpperAlnum (s ! i)" using assms by simp
  then have np: "s ! i \<noteq> CHR ''+''"
    by (auto simp: isUpperAlnum_def isDigit_def)
  have sub: "substr s (int i) (int i + 1) = s ! i # take i (drop (Suc i) s)"
    using i by (rule substr_at)
  have w: "convertToWord (toUpperCase (substr s (int i) (int i + 1))) = Some (spec_word (s ! i))"
    by (simp only: sub convertToWord_upper [OF a])
  have d: "drop i s = s ! i # drop (Suc i) s"
    using i by (simp add: Cons_nth_drop_Suc)
  have ih: "getPhonetic_loop s (Suc i) r' = r' @ spec_join (map spec_word (drop (Suc i) s))"
    for r'
    using Suc.IH [of "Suc i" r'] Suc.prems by simp
  have st: "getPhonetic_loop s i r =
              getPhonetic_loop s (Suc i)
                ((r @ spec_word (s ! i)) @ (if Suc i = length s then [] else '' ''))"
    using getPhonetic_loop_step [OF i, of r] np
    by (simp add: sub convertToWord_upper [OF a] toString_def)
  show ?case
  proof (cases "Suc i = length s")
    case True
    then have "drop (Suc i) s = []" by simp
    with True show ?thesis
      unfolding st ih d by simp
  next
    case False
    with i obtain x xs where "drop (Suc i) s = x # xs"
      by (cases "drop (Suc i) s") auto
    with False show ?thesis
      unfolding st ih d by simp
  qed
qed

lemma spec_word_in_tables:
  assumes "isUpperAlnum c"
  shows "spec_word c \<in> set numbers \<union> set letters"
proof (cases "isDigit c")
  case True
  then have "(of_char c :: nat) - 48 < length numbers"
    by (auto simp: isDigit_def numbers_def)
  then have "numbers ! (of_char c - 48) \<in> set numbers" by (rule nth_mem)
  then show ?thesis using True by (simp add: spec_word_def)
next
  case False
  with assms have "(of_char c :: nat) - 65 < length letters"
    by (auto simp: isUpperAlnum_def letters_def)
  then have "letters ! (of_char c - 65) \<in> set letters" by (rule nth_mem)
  then show ?thesis using False by (simp add: spec_word_def)
qed

lemma tables_not_NONE:
  "w \<in> set numbers \<union> set letters \<Longrightarrow> w \<noteq> ''NONE''"
  by (auto simp: numbers_def letters_def)

lemma spec_renderPhonetic_not_NONE:
  assumes "\<forall>c \<in> set s. isUpperAlnum c"
  shows "spec_renderPhonetic s \<noteq> ''NONE''"
proof (cases s)
  case Nil
  then show ?thesis by (simp add: spec_renderPhonetic_def)
next
  case (Cons c rest)
  show ?thesis
  proof (cases rest)
    case Nil
    have "isUpperAlnum c" using assms Cons by simp
    then have "spec_word c \<noteq> ''NONE''"
      using spec_word_in_tables tables_not_NONE by blast
    then show ?thesis using Cons Nil by (simp add: spec_renderPhonetic_def)
  next
    case (Cons d rest')
    have "CHR '' '' \<in> set (spec_renderPhonetic s)"
      using \<open>s = c # rest\<close> Cons by (simp add: spec_renderPhonetic_def)
    moreover have "CHR '' '' \<notin> set ''NONE''" by simp
    ultimately show ?thesis by metis
  qed
qed

text \<open>
  C4. On a string of digits and capital letters \<open>getPhonetic\<close> is the words of the
  characters, in order, with one space between two neighbours: a digit through the table of
  number names, a letter through the table of letters at its code minus that of \<open>A\<close>; the
  result is never \<open>NONE\<close>. Each single letter gives its word, each single digit its
  number name, \<open>AB\<close> gives \<open>ALPHA BRAVO\<close> and the empty string the empty string.
\<close>

theorem getPhonetic_upper_alnum:
  "((\<forall>c \<in> set s. isUpperAlnum c) \<longrightarrow>
      getPhonetic s = spec_renderPhonetic s \<and> getPhonetic s \<noteq> ''NONE'')
   \<and> (k < 26 \<longrightarrow> getPhonetic [char_of (of_char CHR ''A'' + k)] = letters ! k)
   \<and> (d < 10 \<longrightarrow> getPhonetic [char_of (of_char CHR ''0'' + d)] = numbers ! d)
   \<and> getPhonetic ''AB'' = ''ALPHA BRAVO''
   \<and> getPhonetic '''' = '''' \<and> getPhonetic '''' \<noteq> ''NONE''"
proof -
  have gen: "getPhonetic s = spec_renderPhonetic s" if "\<forall>c \<in> set s. isUpperAlnum c" for s
    using getPhonetic_loop_upper [OF that, of "length s" 0 "''''"]
    by (simp add: getPhonetic_def spec_renderPhonetic_def)
  have letter: "getPhonetic [char_of (of_char CHR ''A'' + k)] = letters ! k" if "k < 26"
  proof -
    have c: "(of_char (char_of (65 + k)) :: nat) = 65 + k" using that by simp
    then have "isUpperAlnum (char_of (65 + k))"
      using that by (simp add: isUpperAlnum_def)
    then have "getPhonetic [char_of (65 + k)] = spec_renderPhonetic [char_of (65 + k)]"
      using gen [of "[char_of (65 + k)]"] by simp
    moreover have "(65 + k) mod 256 = 65 + k" using that by simp
    ultimately show ?thesis
      by (simp add: spec_renderPhonetic_def spec_word_def isDigit_def)
  qed
  have digit: "getPhonetic [char_of (of_char CHR ''0'' + d)] = numbers ! d" if "d < 10"
  proof -
    have c: "(of_char (char_of (48 + d)) :: nat) = 48 + d" using that by simp
    then have "isUpperAlnum (char_of (48 + d))"
      using that by (simp add: isUpperAlnum_def isDigit_def)
    then have "getPhonetic [char_of (48 + d)] = spec_renderPhonetic [char_of (48 + d)]"
      using gen [of "[char_of (48 + d)]"] by simp
    moreover have "(48 + d) mod 256 = 48 + d" using that by simp
    ultimately show ?thesis
      using that by (simp add: spec_renderPhonetic_def spec_word_def isDigit_def)
  qed
  have ab: "getPhonetic ''AB'' = ''ALPHA BRAVO''" by code_simp
  have e: "getPhonetic '''' = ''''"
    by (simp add: getPhonetic_def getPhonetic_loop.simps)
  have none: "getPhonetic s \<noteq> ''NONE''" if "\<forall>c \<in> set s. isUpperAlnum c"
    using gen [OF that] spec_renderPhonetic_not_NONE [OF that] by simp
  show ?thesis
    using gen [of s] none letter digit ab e by simp
qed

theorem getPhonetic_upper_alnum_witness:
  "isUpperAlnum CHR ''Z'' \<and> isUpperAlnum CHR ''9'' \<and> isUpperAlnum CHR ''K''
   \<and> getPhonetic ''Z9K'' = ''ZULU NINE KILO''
   \<and> (25 :: nat) < 26 \<and> getPhonetic ''Z'' = ''ZULU''
   \<and> (9 :: nat) < 10 \<and> getPhonetic ''9'' = ''NINE''"
proof -
  have a: "\<forall>c \<in> set ''Z9K''. isUpperAlnum c"
    by (simp add: isUpperAlnum_def isDigit_def)
  have s: "spec_renderPhonetic ''Z9K'' = ''ZULU NINE KILO''"
    by (simp add: spec_renderPhonetic_def spec_word_def isDigit_def letters_def numbers_def)
  have z: "char_of (of_char CHR ''A'' + (25 :: nat)) = CHR ''Z''"
    by (simp add: char_of_eq_iff)
  have n: "char_of (of_char CHR ''0'' + (9 :: nat)) = CHR ''9''"
    by (simp add: char_of_eq_iff)
  have "getPhonetic ''Z9K'' = ''ZULU NINE KILO''"
    using getPhonetic_upper_alnum [of "''Z9K''" 25 9] a s by simp
  moreover have "getPhonetic ''Z'' = ''ZULU''"
    using getPhonetic_upper_alnum [of "''Z9K''" 25 9] z by (simp add: letters_def)
  moreover have "getPhonetic ''9'' = ''NINE''"
    using getPhonetic_upper_alnum [of "''Z9K''" 25 9] n by (simp add: numbers_def)
  ultimately show ?thesis using a by simp
qed

section \<open>The exclusion test of getPhonetic\<close>

lemma substr_at_plus:
  assumes "i < length s"
  shows "(substr s (int i) (int i + 1) = ''+'')
           = (s ! i = CHR ''+'' \<and> (i = 0 \<or> Suc i = length s))"
proof -
  have "(take i (drop (Suc i) s) = []) = (i = 0 \<or> Suc i = length s)"
    using assms by auto
  then show ?thesis
    by (simp add: substr_at [OF assms])
qed

lemma substr_at_inner:
  assumes "0 < i" and "Suc i < length s"
  shows "1 < length (substr s (int i) (int i + 1))"
proof -
  have "i < length s" using assms by simp
  then have "length (substr s (int i) (int i + 1)) = Suc (min i (length s - Suc i))"
    by (simp add: substr_at min.commute)
  then show ?thesis using assms by simp
qed

lemma convertToWord_minus:
  "convertToWord (toUpperCase (CHR ''-'' # rest)) = index letters (int (of_char CHR ''-'') - 65)"
proof -
  have u: "toUpperCase_char CHR ''-'' = ''-''"
    by (simp add: toUpperCase_char_def)
  have f: "substr (toUpperCase (CHR ''-'' # rest)) 0 1 = ''-''"
    by (simp add: toUpperCase_Cons u substr_first)
  have n: "isNaN ''-''"
    by (simp add: isNaN_def isDigit_def isWhiteSpace_def)
  have t: "toUpperCase ''-'' = ''-''"
    by (simp add: toUpperCase_def u)
  show ?thesis
    by (simp add: convertToWord_def f n t charCodeAt_def)
qed

lemma getPhonetic_once_loop_eq:
  "n = length s - i \<Longrightarrow> getPhonetic_once_loop s i r = getPhonetic_loop s i r"
proof (induction n arbitrary: i r)
  case 0
  then show ?case
    by (simp add: getPhonetic_once_loop.simps getPhonetic_loop.simps)
next
  case (Suc n)
  then have "n = length s - (i + 1)" by simp
  then have ih: "getPhonetic_once_loop s (i + 1) r' = getPhonetic_loop s (i + 1) r'" for r'
    by (rule Suc.IH)
  show ?case
    by (subst getPhonetic_once_loop.simps, subst getPhonetic_loop.simps)
       (simp only: Let_def ih simp_thms)
qed

text \<open>
  C9, as the code has it. A \<open>-\<close> is never excluded: at its position the loop appends what
  \<open>convertToWord\<close> finds, which is the entry of the letter table at 45 - 65, that is
  \<open>undefined\<close>. The test \<open>location.substr(i, i + 1) !== '+'\<close> fails exactly for a \<open>+\<close> at
  position 0 or at the last position, where the end of the string cuts the substring to
  one character; at every position between the two the substring has more than one
  character. Testing once instead of twice gives the same \<open>getPhonetic\<close>.
\<close>

theorem getPhonetic_exclusion:
  "(i < length location \<and> location ! i = CHR ''-'' \<longrightarrow>
      substr location (int i) (int i + 1) \<noteq> ''+''
    \<and> convertToWord (toUpperCase (substr location (int i) (int i + 1)))
        = index letters (int (of_char CHR ''-'') - 65)
    \<and> getPhonetic_loop location i r =
        getPhonetic_loop location (Suc i)
          (r @ toString (index letters (int (of_char CHR ''-'') - 65))
             @ (if Suc i = length location then [] else '' '')))
   \<and> (i < length location \<longrightarrow>
        (substr location (int i) (int i + 1) = ''+'')
          = (location ! i = CHR ''+'' \<and> (i = 0 \<or> Suc i = length location)))
   \<and> (0 < i \<and> Suc i < length location \<longrightarrow> 1 < length (substr location (int i) (int i + 1)))
   \<and> getPhonetic_once location = getPhonetic location"
proof (intro conjI impI)
  assume h: "i < length location \<and> location ! i = CHR ''-''"
  then have i: "i < length location" and m: "location ! i = CHR ''-''" by simp_all
  show np: "substr location (int i) (int i + 1) \<noteq> ''+''"
    using m by (simp add: substr_at_plus [OF i])
  have sub: "substr location (int i) (int i + 1) = CHR ''-'' # take i (drop (Suc i) location)"
    using substr_at [OF i] m by simp
  show w: "convertToWord (toUpperCase (substr location (int i) (int i + 1)))
        = index letters (int (of_char CHR ''-'') - 65)"
    by (simp only: sub convertToWord_minus)
  show "getPhonetic_loop location i r =
        getPhonetic_loop location (Suc i)
          (r @ toString (index letters (int (of_char CHR ''-'') - 65))
             @ (if Suc i = length location then [] else '' ''))"
    using getPhonetic_loop_step [OF i, of r] np unfolding w by simp
next
  assume "i < length location"
  then show "(substr location (int i) (int i + 1) = ''+'')
          = (location ! i = CHR ''+'' \<and> (i = 0 \<or> Suc i = length location))"
    by (rule substr_at_plus)
next
  assume "0 < i \<and> Suc i < length location"
  then show "1 < length (substr location (int i) (int i + 1))"
    using substr_at_inner by blast
next
  show "getPhonetic_once location = getPhonetic location"
    by (simp add: getPhonetic_once_def getPhonetic_def getPhonetic_once_loop_eq)
qed

theorem getPhonetic_exclusion_witness:
  "(1 :: nat) < length ''A-+'' \<and> ''A-+'' ! 1 = CHR ''-'' \<and> (0 :: nat) < 1
   \<and> Suc 1 < length ''A-+''
   \<and> substr ''A-+'' (int 1) (int 1 + 1) \<noteq> ''+''
   \<and> convertToWord (toUpperCase (substr ''A-+'' (int 1) (int 1 + 1))) = None
   \<and> 1 < length (substr ''A-+'' (int 1) (int 1 + 1))
   \<and> getPhonetic_once ''A-+'' = ''ALPHA undefined ''"
proof -
  note t = getPhonetic_exclusion [of 1 "''A-+''" "''ALPHA ''"]
  have h1: "(1 :: nat) < length ''A-+'' \<and> ''A-+'' ! 1 = CHR ''-''" by simp
  have h2: "(0 :: nat) < 1 \<and> Suc 1 < length ''A-+''" by simp
  have x: "index letters (int (of_char CHR ''-'') - 65) = None"
    by (simp add: index_def)
  have g: "getPhonetic ''A-+'' = ''ALPHA undefined ''"
    by code_simp
  have a: "substr ''A-+'' (int 1) (int 1 + 1) \<noteq> ''+''"
    using t h1 by blast
  have "convertToWord (toUpperCase (substr ''A-+'' (int 1) (int 1 + 1)))
          = index letters (int (of_char CHR ''-'') - 65)"
    using t h1 by blast
  then have b: "convertToWord (toUpperCase (substr ''A-+'' (int 1) (int 1 + 1))) = None"
    using x by (rule trans)
  have c: "1 < length (substr ''A-+'' (int 1) (int 1 + 1))"
    using t h2 by blast
  have "getPhonetic_once ''A-+'' = getPhonetic ''A-+''"
    using t by blast
  then have d: "getPhonetic_once ''A-+'' = ''ALPHA undefined ''"
    using g by (rule trans)
  show ?thesis
    using h1 h2 a b c d by blast
qed

text \<open>
  C9 as it is stated fails on \<open>A+\<close>: at position 1, which is not position 0, the
  substring is the one character \<open>+\<close>, and the \<open>+\<close> is left out of the result; a \<open>-\<close> in
  the same place is looked up.
\<close>

theorem getPhonetic_exclusion_counterexample:
  "(0 :: nat) < 1
   \<and> substr ''A+'' (int 1) (int 1 + 1) = ''+''
   \<and> \<not> 1 < length (substr ''A+'' (int 1) (int 1 + 1))
   \<and> getPhonetic ''A+'' = ''ALPHA ''
   \<and> getPhonetic ''A-'' = ''ALPHA undefined''"
proof -
  have s: "substr ''A+'' 1 2 = ''+''"
    by (simp add: substr_def)
  have p: "getPhonetic ''A+'' = ''ALPHA ''" by code_simp
  have m: "getPhonetic ''A-'' = ''ALPHA undefined''" by code_simp
  show ?thesis by (simp add: s p m)
qed

section \<open>Termination of handleSpecialLocation\<close>

lemma handleSpecialLocation_bounded_enough:
  "length location \<le> n \<Longrightarrow>
   handleSpecialLocation_bounded n location p = Some (handleSpecialLocation location p)"
proof (induction n arbitrary: location)
  case 0
  then have "location = []" by simp
  then show ?case by (simp add: substr_from_last)
next
  case (Suc n)
  show ?case
  proof (cases "substr_from location (- 1) = ''+'' \<or> substr_from location (- 1) = ''-''")
    case False
    then show ?thesis by simp
  next
    case True
    then have "location \<noteq> []" by (auto simp: substr_from_last)
    then have "length (substr location 0 (int (length location) - 1)) \<le> n"
      using Suc.prems by (simp add: substr_butlast)
    then have ih: "handleSpecialLocation_bounded n (substr location 0 (int (length location) - 1)) p
                     = Some (handleSpecialLocation (substr location 0 (int (length location) - 1)) p)"
      by (rule Suc.IH)
    show ?thesis
      using True
      by (subst handleSpecialLocation.simps)
         (simp add: ih Let_def split: prod.splits)
  qed
qed

text \<open>
  C10. \<open>handleSpecialLocation\<close> is a total function (its definition above comes with the
  proof that the recursion ends). Counting the calls: with a bound of at least the length
  of the location on the depth of the recursion, the bounded function returns the result
  of \<open>handleSpecialLocation\<close>. The relative suffix rule calls the function on the location
  without its last character, which is shorter by one, and the empty string does not take
  that rule.
\<close>

theorem handleSpecialLocation_terminates:
  "(length location \<le> n \<longrightarrow>
      handleSpecialLocation_bounded n location p = Some (handleSpecialLocation location p))
   \<and> (substr_from location (- 1) = ''+'' \<or> substr_from location (- 1) = ''-'' \<longrightarrow>
        location \<noteq> []
      \<and> substr location 0 (int (length location) - 1) = butlast location
      \<and> Suc (length (substr location 0 (int (length location) - 1))) = length location)
   \<and> substr_from [] (- 1) \<noteq> ''+'' \<and> substr_from [] (- 1) \<noteq> ''-''
   \<and> handleSpecialLocation_bounded 0 [] p = Some (False, p)"
proof (intro conjI impI)
  assume "length location \<le> n"
  then show "handleSpecialLocation_bounded n location p
               = Some (handleSpecialLocation location p)"
    by (rule handleSpecialLocation_bounded_enough)
next
  assume "substr_from location (- 1) = ''+'' \<or> substr_from location (- 1) = ''-''"
  then show ne: "location \<noteq> []" by (auto simp: substr_from_last)
  show "substr location 0 (int (length location) - 1) = butlast location"
    by (rule substr_butlast)
  show "Suc (length (substr location 0 (int (length location) - 1))) = length location"
    using ne by (simp add: substr_butlast)
next
  show "substr_from [] (- 1) \<noteq> ''+''" by (simp add: substr_from_last)
  show "substr_from [] (- 1) \<noteq> ''-''" by (simp add: substr_from_last)
  have "handleSpecialLocation [] p = (False, p)"
    by (subst handleSpecialLocation.simps) (simp add: substr_from_last substr_def)
  then show "handleSpecialLocation_bounded 0 [] p = Some (False, p)"
    by (simp add: substr_from_last)
qed

theorem handleSpecialLocation_terminates_witness:
  "length ''AB+-'' \<le> 4
   \<and> (substr_from ''AB+-'' (- 1) = ''+'' \<or> substr_from ''AB+-'' (- 1) = ''-'')
   \<and> handleSpecialLocation_bounded 4 ''AB+-'' \<lparr>phoneticDiv = ''NONE'', checkDiv = ''NONE''\<rparr>
       = Some (True, \<lparr>phoneticDiv = ''BEFORE AFTER ALPHA BRAVO'', checkDiv = ''BRAVO''\<rparr>)
   \<and> substr ''AB+-'' 0 (int (length ''AB+-'') - 1) = butlast ''AB+-''
   \<and> handleSpecialLocation_bounded 1 ''AB+-'' \<lparr>phoneticDiv = ''NONE'', checkDiv = ''NONE''\<rparr>
       = None"
proof -
  let ?p = "\<lparr>phoneticDiv = ''NONE'', checkDiv = ''NONE''\<rparr>"
  note t = handleSpecialLocation_terminates [of "''AB+-''" 4 ?p]
  have h1: "length ''AB+-'' \<le> 4" by simp
  have h2: "substr_from ''AB+-'' (- 1) = ''+'' \<or> substr_from ''AB+-'' (- 1) = ''-''"
    by (simp add: substr_from_last)
  have r: "handleSpecialLocation ''AB+-'' ?p
             = (True, \<lparr>phoneticDiv = ''BEFORE AFTER ALPHA BRAVO'', checkDiv = ''BRAVO''\<rparr>)"
    by code_simp
  have "handleSpecialLocation_bounded 4 ''AB+-'' ?p = Some (handleSpecialLocation ''AB+-'' ?p)"
    using t h1 by blast
  then have a: "handleSpecialLocation_bounded 4 ''AB+-'' ?p
             = Some (True, \<lparr>phoneticDiv = ''BEFORE AFTER ALPHA BRAVO'', checkDiv = ''BRAVO''\<rparr>)"
    by (simp only: r)
  have b: "substr ''AB+-'' 0 (int (length ''AB+-'') - 1) = butlast ''AB+-''"
    using t h2 by blast
  have n: "handleSpecialLocation_bounded 1 ''AB+-'' ?p = None"
    by code_simp
  show ?thesis
    using h1 h2 a b n by blast
qed

end
